theory Spec2Isabelle
  imports Main
begin

section \<open>JavaScript strings\<close>

text \<open>
  A JavaScript string is a sequence of UTF-16 code units; \<open>s.length\<close> counts code units,
  \<open>s[i]\<close> and \<open>s.charCodeAt(i)\<close> read one.  A code unit is modelled as a natural number
  (below 65536 in every string the program can receive) and a string as a list of them.
  \<open>js\<close> turns an ASCII literal of the theory into such a string.
\<close>

type_synonym jschar = nat
type_synonym jsstring = "nat list"

definition js :: "string \<Rightarrow> jsstring" where
  "js s = map of_char s"

section \<open>pattern-matcher: \<open>matches\<close>\<close>

text \<open>
  The array \<open>pos\<close> has \<open>pathLen + 1\<close> slots and is updated in place; \<open>numPos\<close> is the
  number of slots in use.  The slots of \<open>new Array(pathLen + 1)\<close> hold no value until
  written; they are modelled as 0, and the source reads only written slots.
\<close>

text \<open>\<open>for (let i = 1; i < numPos; i++) pos[i] = pos[i - 1] + 1;\<close>\<close>

function wild_fill :: "nat \<Rightarrow> nat \<Rightarrow> nat list \<Rightarrow> nat list" where
  "wild_fill i numPos pos =
     (if i < numPos then wild_fill (Suc i) numPos (pos[i := pos ! (i - 1) + 1]) else pos)"
  by pat_completeness auto
termination
  by (relation "measure (\<lambda>(i, numPos, pos). numPos - i)") auto

declare wild_fill.simps [simp del]

text \<open>
  The literal case: \<open>for (let i = 0; i < numPos; i++) if (pos[i] < pathLen && path[pos[i]] === pat)
  pos[newNumPos++] = pos[i] + 1;\<close>  It returns \<open>newNumPos\<close> and the array.
\<close>

function lit_loop ::
  "jsstring \<Rightarrow> jschar \<Rightarrow> nat \<Rightarrow> nat \<Rightarrow> nat \<Rightarrow> nat list \<Rightarrow> nat \<times> nat list" where
  "lit_loop path pat numPos i newNumPos pos =
     (if i < numPos then
        (if pos ! i < length path \<and> path ! (pos ! i) = pat
         then lit_loop path pat numPos (Suc i) (Suc newNumPos) (pos[newNumPos := pos ! i + 1])
         else lit_loop path pat numPos (Suc i) newNumPos pos)
      else (newNumPos, pos))"
  by pat_completeness auto
termination
  by (relation "measure (\<lambda>(path, pat, numPos, i, newNumPos, pos). numPos - i)") auto

declare lit_loop.simps [simp del]

text \<open>
  The loop over the pattern; the remaining pattern is \<open>pat # rest\<close>, so
  \<open>p === pattern.length - 1\<close> is \<open>rest = []\<close>.  36 is \<open>$\<close>, 42 is \<open>*\<close>.
\<close>

fun matches_loop :: "jsstring \<Rightarrow> jsstring \<Rightarrow> nat \<Rightarrow> nat list \<Rightarrow> bool" where
  "matches_loop path [] numPos pos = True"
| "matches_loop path (pat # rest) numPos pos =
     (if pat = 36 \<and> rest = [] then pos ! (numPos - 1) = length path
      else if pat = 42 then
        (let numPos' = length path - pos ! 0 + 1
         in matches_loop path rest numPos' (wild_fill 1 numPos' pos))
      else
        (case lit_loop path pat numPos 0 0 pos of
           (newNumPos, pos') \<Rightarrow>
             if newNumPos = 0 then False else matches_loop path rest newNumPos pos'))"

definition matches :: "jsstring \<Rightarrow> jsstring \<Rightarrow> bool" where
  "matches path pattern =
     matches_loop path pattern 1 ((replicate (length path + 1) 0)[0 := 0])"

subsection \<open>The frontier semantics of the specification\<close>

text \<open>
  The frontier is the set of path offsets reachable after a prefix of the pattern.
\<close>

definition frontier_star :: "jsstring \<Rightarrow> nat set \<Rightarrow> nat set" where
  "frontier_star path F = {Min F .. length path}"

definition frontier_lit :: "jsstring \<Rightarrow> jschar \<Rightarrow> nat set \<Rightarrow> nat set" where
  "frontier_lit path p F = Suc ` {i \<in> F. i < length path \<and> path ! i = p}"

fun frontier_run :: "jsstring \<Rightarrow> jsstring \<Rightarrow> nat set \<Rightarrow> bool" where
  "frontier_run path [] F = (F \<noteq> {})"
| "frontier_run path (p # ps) F =
     (if p = 36 \<and> ps = [] then length path \<in> F
      else if p = 42 then frontier_run path ps (frontier_star path F)
      else if frontier_lit path p F = {} then False
      else frontier_run path ps (frontier_lit path p F))"

definition frontier_matches :: "jsstring \<Rightarrow> jsstring \<Rightarrow> bool" where
  "frontier_matches path pattern = frontier_run path pattern {0}"

subsection \<open>The invariant of the array\<close>

text \<open>
  The slots in use hold a strictly increasing list of offsets, none beyond the path's
  length, and they are the frontier.
\<close>

definition pos_inv :: "jsstring \<Rightarrow> nat \<Rightarrow> nat list \<Rightarrow> nat set \<Rightarrow> bool" where
  "pos_inv path numPos pos F \<longleftrightarrow>
     0 < numPos \<and> numPos \<le> length pos \<and> length pos = length path + 1 \<and>
     sorted_wrt (<) (take numPos pos) \<and> set (take numPos pos) = F \<and>
     (\<forall>x \<in> F. x \<le> length path)"



section \<open>String operations of the platform\<close>

text \<open>
  \<open>s.indexOf(c)\<close> and \<open>s.lastIndexOf(c)\<close> for a one-character \<open>c\<close>; JavaScript's \<open>-1\<close>
  is \<open>None\<close>.
\<close>

fun indexOf :: "jschar \<Rightarrow> jsstring \<Rightarrow> nat option" where
  "indexOf c [] = None"
| "indexOf c (x # xs) = (if x = c then Some 0 else map_option Suc (indexOf c xs))"

fun lastIndexOf :: "jschar \<Rightarrow> jsstring \<Rightarrow> nat option" where
  "lastIndexOf c [] = None"
| "lastIndexOf c (x # xs) =
     (case lastIndexOf c xs of
        Some i \<Rightarrow> Some (Suc i)
      | None \<Rightarrow> if x = c then Some 0 else None)"

text \<open>\<open>s.slice(a, b)\<close> and \<open>s.slice(a)\<close> for \<open>0 \<le> a\<close>, \<open>0 \<le> b\<close>.\<close>

definition slice :: "jsstring \<Rightarrow> nat \<Rightarrow> nat \<Rightarrow> jsstring" where
  "slice s a b = take (b - a) (drop a s)"

definition sliceFrom :: "jsstring \<Rightarrow> nat \<Rightarrow> jsstring" where
  "sliceFrom s a = drop a s"

definition startsWith :: "jsstring \<Rightarrow> jsstring \<Rightarrow> bool" where
  "startsWith s p \<longleftrightarrow> take (length p) s = p"

text \<open>
  The characters that \<open>trim()\<close> strips and that \<open>\s\<close> matches: ECMAScript's WhiteSpace and
  LineTerminator.
\<close>

definition isWhiteSpace :: "jschar \<Rightarrow> bool" where
  "isWhiteSpace c \<longleftrightarrow>
     (9 \<le> c \<and> c \<le> 13) \<or> c = 32 \<or> c = 160 \<or> c = 5760 \<or> (8192 \<le> c \<and> c \<le> 8202) \<or>
     c = 8232 \<or> c = 8233 \<or> c = 8239 \<or> c = 8287 \<or> c = 12288 \<or> c = 65279"

definition trim :: "jsstring \<Rightarrow> jsstring" where
  "trim s = rev (dropWhile isWhiteSpace (rev (dropWhile isWhiteSpace s)))"

text \<open>
  \<open>s.split(/[ \t]+/)\<close>: the pieces between maximal runs of spaces and tabs, an empty
  piece before a leading run and after a trailing one.
\<close>

definition isBlank :: "jschar \<Rightarrow> bool" where
  "isBlank c \<longleftrightarrow> c = 32 \<or> c = 9"

function splitBlanks :: "jsstring \<Rightarrow> jsstring \<Rightarrow> jsstring list" where
  "splitBlanks cur [] = [cur]"
| "splitBlanks cur (c # cs) =
     (if isBlank c then cur # splitBlanks [] (dropWhile isBlank cs)
      else splitBlanks (cur @ [c]) cs)"
  by pat_completeness auto
termination
  by (relation "measure (\<lambda>(cur, s). length s)")
     (auto simp: le_imp_less_Suc length_dropWhile_le)

text \<open>
  \<open>s.toLowerCase()\<close>.  The program compares lower-cased strings only with strings of ASCII
  letters, \<open>-\<close>, \<open>_\<close> and space.  The code units whose lower case holds an ASCII character
  are \<open>A\<close> to \<open>Z\<close>, U+212A (KELVIN SIGN, to \<open>k\<close>) and U+0130 (to \<open>i\<close> followed by U+0307);
  every other code unit is mapped by the platform to non-ASCII units and is left as it is
  here, which no such comparison can tell apart.
\<close>

definition toLowerCaseUnit :: "jschar \<Rightarrow> jsstring" where
  "toLowerCaseUnit c =
     (if 65 \<le> c \<and> c \<le> 90 then [c + 32]
      else if c = 8490 then [107]
      else if c = 304 then [105, 775]
      else [c])"

definition toLowerCase :: "jsstring \<Rightarrow> jsstring" where
  "toLowerCase s = concat (map toLowerCaseUnit s)"

section \<open>constants\<close>

definition K_MAX_LINE_LEN :: nat where
  "K_MAX_LINE_LEN = 2083 * 8"

definition K_HEX_DIGITS :: jsstring where
  "K_HEX_DIGITS = [48, 49, 50, 51, 52, 53, 54, 55, 56, 57, 65, 66, 67, 68, 69, 70]"

definition UTF8_BOM :: "nat list" where
  "UTF8_BOM = [239, 187, 191]"

definition K_NO_MATCH_PRIORITY :: int where
  "K_NO_MATCH_PRIORITY = - 1"

section \<open>url-utils\<close>

text \<open>The first index from \<open>start\<close> on whose character is \<open>/\<close>, \<open>?\<close> or \<open>;\<close>.\<close>

definition isPathChar :: "jschar \<Rightarrow> bool" where
  "isPathChar ch \<longleftrightarrow> ch = 47 \<or> ch = 63 \<or> ch = 59"

fun findPathChar :: "jsstring \<Rightarrow> nat \<Rightarrow> nat option" where
  "findPathChar [] i = None"
| "findPathChar (ch # rest) i = (if isPathChar ch then Some i else findPathChar rest (Suc i))"

text \<open>\<open>url.indexOf(sub, start)\<close> for a non-empty \<open>sub\<close>: the search runs from index \<open>i\<close> on.\<close>

fun indexOfFrom :: "jsstring \<Rightarrow> jsstring \<Rightarrow> nat \<Rightarrow> nat option" where
  "indexOfFrom sub [] i = None"
| "indexOfFrom sub (c # cs) i =
     (if startsWith (c # cs) sub then Some i else indexOfFrom sub cs (Suc i))"

definition getPathParamsQuery :: "jsstring \<Rightarrow> jsstring" where
  "getPathParamsQuery url =
     (let searchStart = (if length url \<ge> 2 \<and> url ! 0 = 47 \<and> url ! 1 = 47 then 2 else 0 :: nat);
          earlyPath = findPathChar (sliceFrom url searchStart) searchStart;
          protocolEnd0 = indexOfFrom (js ''://'') (drop searchStart url) searchStart;
          protocolEnd1 =
            (case (earlyPath, protocolEnd0) of
               (Some e, Some p) \<Rightarrow> if e < p then None else Some p
             | _ \<Rightarrow> protocolEnd0);
          protocolEnd = (case protocolEnd1 of None \<Rightarrow> searchStart | Some p \<Rightarrow> p + 3);
          pathStart = findPathChar (drop protocolEnd url) protocolEnd
      in case pathStart of
           None \<Rightarrow> [47]
         | Some ps \<Rightarrow>
             (let hashPos = indexOfFrom [35] (drop searchStart url) searchStart
              in if (case hashPos of None \<Rightarrow> False | Some h \<Rightarrow> h < ps) then [47]
                 else
                   (let pathEnd = (case hashPos of None \<Rightarrow> length url | Some h \<Rightarrow> h)
                    in if url ! ps \<noteq> 47 then 47 # slice url ps pathEnd
                       else slice url ps pathEnd)))"

definition isHexDigit :: "jschar \<Rightarrow> bool" where
  "isHexDigit ch \<longleftrightarrow> (48 \<le> ch \<and> ch \<le> 57) \<or> (65 \<le> ch \<and> ch \<le> 70) \<or> (97 \<le> ch \<and> ch \<le> 102)"

definition isLower :: "jschar \<Rightarrow> bool" where
  "isLower ch \<longleftrightarrow> 97 \<le> ch \<and> ch \<le> 122"

text \<open>\<open>toUpperCase()\<close> of one hexadecimal digit.\<close>

definition hexToUpper :: "jschar \<Rightarrow> jschar" where
  "hexToUpper ch = (if 97 \<le> ch \<and> ch \<le> 102 then ch - 32 else ch)"

text \<open>
  \<open>new TextEncoder().encode(ch)\<close> for a string \<open>ch\<close> of one code unit above 127: the UTF-8
  bytes of the code point, and those of U+FFFD for a surrogate, which stands alone in a
  one-unit string.
\<close>

definition encodeUnit :: "jschar \<Rightarrow> nat list" where
  "encodeUnit c =
     (if c < 128 then [c]
      else if c < 2048 then [192 + c div 64, 128 + c mod 64]
      else if 55296 \<le> c \<and> c \<le> 57343 then [239, 191, 189]
      else [224 + c div 4096, 128 + (c div 64) mod 64, 128 + c mod 64])"

definition percentByte :: "nat \<Rightarrow> jsstring" where
  "percentByte byte = [37, K_HEX_DIGITS ! ((byte div 16) mod 16), K_HEX_DIGITS ! (byte mod 16)]"

text \<open>
  The first pass of \<open>maybeEscapePattern\<close> counts the units to escape and notes whether a
  \<open>%XX\<close> sequence has a lower-case digit; \<open>i + 2 < src.length\<close> holds when two more
  characters follow the one at \<open>i\<close>, and \<open>i += 2\<close> skips them.  37 is \<open>%\<close>.
\<close>

fun escapeScan :: "jsstring \<Rightarrow> nat \<Rightarrow> bool \<Rightarrow> nat \<times> bool" where
  "escapeScan [] numToEscape needCapitalize = (numToEscape, needCapitalize)"
| "escapeScan (ch # h1 # h2 # rest) numToEscape needCapitalize =
     (if ch = 37 \<and> isHexDigit h1 \<and> isHexDigit h2
      then escapeScan rest numToEscape (needCapitalize \<or> isLower h1 \<or> isLower h2)
      else if ch > 127 then escapeScan (h1 # h2 # rest) (numToEscape + 1) needCapitalize
      else escapeScan (h1 # h2 # rest) numToEscape needCapitalize)"
| "escapeScan (ch # rest) numToEscape needCapitalize =
     (if ch > 127 then escapeScan rest (numToEscape + 1) needCapitalize
      else escapeScan rest numToEscape needCapitalize)"

text \<open>The second pass builds the escaped string.\<close>

fun escapeBuild :: "jsstring \<Rightarrow> jsstring" where
  "escapeBuild [] = []"
| "escapeBuild (ch # h1 # h2 # rest) =
     (if ch = 37 \<and> isHexDigit h1 \<and> isHexDigit h2
      then [ch, hexToUpper h1, hexToUpper h2] @ escapeBuild rest
      else if ch > 127
      then concat (map percentByte (encodeUnit ch)) @ escapeBuild (h1 # h2 # rest)
      else ch # escapeBuild (h1 # h2 # rest))"
| "escapeBuild (ch # rest) =
     (if ch > 127 then concat (map percentByte (encodeUnit ch)) @ escapeBuild rest
      else ch # escapeBuild rest)"

text \<open>The result is the pair \<open>(escaped, wasEscaped)\<close>.\<close>

definition maybeEscapePattern :: "jsstring \<Rightarrow> jsstring \<times> bool" where
  "maybeEscapePattern src =
     (case escapeScan src 0 False of
        (numToEscape, needCapitalize) \<Rightarrow>
          if numToEscape = 0 \<and> \<not> needCapitalize then (src, False)
          else (escapeBuild src, True))"

section \<open>types\<close>

record LineMetadata =
  isEmpty :: bool
  hasComment :: bool
  isComment :: bool
  hasDirective :: bool
  isAcceptableTypo :: bool
  isLineTooLong :: bool
  isMissingColonSeparator :: bool

definition createLineMetadata :: LineMetadata where
  "createLineMetadata =
     \<lparr>isEmpty = False, hasComment = False, isComment = False, hasDirective = False,
      isAcceptableTypo = False, isLineTooLong = False, isMissingColonSeparator = False\<rparr>"

datatype KeyType = USER_AGENT | SITEMAP | ALLOW | DISALLOW | UNKNOWN

text \<open>
  The calls that \<open>parseRobotsTxt\<close> makes on its handler, in the order it makes them.  No
  handler of the program gives anything back to the parser, so a parse is the list of its
  calls and a handler is a function that consumes them one by one.
\<close>

datatype event =
    HandleRobotsStart
  | HandleRobotsEnd
  | HandleUserAgent nat jsstring
  | HandleAllow nat jsstring
  | HandleDisallow nat jsstring
  | HandleSitemap nat jsstring
  | HandleUnknownAction nat jsstring jsstring
  | ReportLineMetadata nat LineMetadata

section \<open>parsed-key: \<open>ParsedRobotsKey\<close>\<close>

definition startsWithIgnoreCase :: "jsstring \<Rightarrow> jsstring \<Rightarrow> bool" where
  "startsWithIgnoreCase key pre \<longleftrightarrow> startsWith (toLowerCase key) (toLowerCase pre)"

definition keyIsUserAgent :: "jsstring \<Rightarrow> bool" where
  "keyIsUserAgent key \<longleftrightarrow>
     startsWithIgnoreCase key (js ''user-agent'') \<or>
     startsWithIgnoreCase key (js ''useragent'') \<or>
     startsWithIgnoreCase key (js ''user agent'')"

definition isUserAgentTypo :: "jsstring \<Rightarrow> bool" where
  "isUserAgentTypo key \<longleftrightarrow>
     startsWithIgnoreCase key (js ''useragent'') \<or>
     startsWithIgnoreCase key (js ''user agent'')"

definition keyIsAllow :: "jsstring \<Rightarrow> bool" where
  "keyIsAllow key \<longleftrightarrow> startsWithIgnoreCase key (js ''allow'')"

definition isDisallowTypo :: "jsstring \<Rightarrow> bool" where
  "isDisallowTypo key \<longleftrightarrow>
     startsWithIgnoreCase key (js ''dissallow'') \<or>
     startsWithIgnoreCase key (js ''dissalow'') \<or>
     startsWithIgnoreCase key (js ''disalow'') \<or>
     startsWithIgnoreCase key (js ''diasllow'') \<or>
     startsWithIgnoreCase key (js ''disallaw'')"

definition keyIsDisallow :: "jsstring \<Rightarrow> bool" where
  "keyIsDisallow key \<longleftrightarrow>
     startsWithIgnoreCase key (js ''disallow'') \<or>
     startsWithIgnoreCase key (js ''dissallow'') \<or>
     startsWithIgnoreCase key (js ''dissalow'') \<or>
     startsWithIgnoreCase key (js ''disalow'') \<or>
     startsWithIgnoreCase key (js ''diasllow'') \<or>
     startsWithIgnoreCase key (js ''disallaw'')"

definition keyIsSitemap :: "jsstring \<Rightarrow> bool" where
  "keyIsSitemap key \<longleftrightarrow>
     startsWithIgnoreCase key (js ''sitemap'') \<or> startsWithIgnoreCase key (js ''site-map'')"

definition isSitemapTypo :: "jsstring \<Rightarrow> bool" where
  "isSitemapTypo key \<longleftrightarrow> startsWithIgnoreCase key (js ''site-map'')"

text \<open>
  \<open>ParsedRobotsKey.parse\<close> gives the key's type, whether it is an accepted typo, and the
  key's text for an unknown key (\<open>undefined\<close> otherwise).
\<close>

definition parseKey :: "jsstring \<Rightarrow> KeyType \<times> bool \<times> jsstring option" where
  "parseKey key =
     (if keyIsUserAgent key then (USER_AGENT, isUserAgentTypo key, None)
      else if keyIsAllow key then (ALLOW, False, None)
      else if keyIsDisallow key then (DISALLOW, isDisallowTypo key, None)
      else if keyIsSitemap key then (SITEMAP, isSitemapTypo key, None)
      else (UNKNOWN, False, Some key))"

section \<open>parser: \<open>RobotsTxtParser\<close>\<close>

fun needEscapeValueForKey :: "KeyType \<Rightarrow> bool" where
  "needEscapeValueForKey USER_AGENT = False"
| "needEscapeValueForKey SITEMAP = False"
| "needEscapeValueForKey _ = True"

text \<open>35 is \<open>#\<close>, 58 is \<open>:\<close>.  The result is \<open>(key, value, metadata)\<close>.\<close>

definition getKeyAndValueFrom :: "jsstring \<Rightarrow> jsstring \<times> jsstring \<times> LineMetadata" where
  "getKeyAndValueFrom line =
     (let commentPos = indexOf 35 line;
          metadata = (case commentPos of
                        None \<Rightarrow> createLineMetadata
                      | Some _ \<Rightarrow> createLineMetadata\<lparr>hasComment := True\<rparr>);
          processedLine = trim (case commentPos of None \<Rightarrow> line | Some p \<Rightarrow> slice line 0 p)
      in if length processedLine = 0 then
           (if hasComment metadata then ([], [], metadata\<lparr>isComment := True\<rparr>)
            else ([], [], metadata\<lparr>isEmpty := True\<rparr>))
         else
           (case indexOf 58 processedLine of
              None \<Rightarrow>
                (let parts = splitBlanks [] processedLine
                 in if length parts = 2 then
                      (parts ! 0, parts ! 1,
                       metadata\<lparr>isMissingColonSeparator := True, hasDirective := True\<rparr>)
                    else ([], [], metadata))
            | Some sepPos \<Rightarrow>
                (let key = trim (slice processedLine 0 sepPos);
                     val = trim (sliceFrom processedLine (sepPos + 1))
                 in if length key > 0 then (key, val, metadata\<lparr>hasDirective := True\<rparr>)
                    else ([], [], metadata))))"

text \<open>\<open>unknownText || ""\<close> is the empty string when \<open>unknownText\<close> is \<open>undefined\<close>.\<close>

fun emitKeyValueToHandler :: "nat \<Rightarrow> KeyType \<Rightarrow> jsstring \<Rightarrow> jsstring option \<Rightarrow> event" where
  "emitKeyValueToHandler lineNum USER_AGENT val unknownText = HandleUserAgent lineNum val"
| "emitKeyValueToHandler lineNum ALLOW val unknownText = HandleAllow lineNum val"
| "emitKeyValueToHandler lineNum DISALLOW val unknownText = HandleDisallow lineNum val"
| "emitKeyValueToHandler lineNum SITEMAP val unknownText = HandleSitemap lineNum val"
| "emitKeyValueToHandler lineNum UNKNOWN val unknownText =
     HandleUnknownAction lineNum (case unknownText of None \<Rightarrow> [] | Some t \<Rightarrow> t) val"

definition parseAndEmitLine :: "nat \<Rightarrow> jsstring \<Rightarrow> bool \<Rightarrow> event list" where
  "parseAndEmitLine lineNum line lineTooLong =
     (case getKeyAndValueFrom line of
        (key, val, metadata0) \<Rightarrow>
          (let metadata = metadata0\<lparr>isLineTooLong := lineTooLong\<rparr>
           in if \<not> hasDirective metadata then [ReportLineMetadata lineNum metadata]
              else
                (case parseKey key of
                   (keyType, typo, unknownText) \<Rightarrow>
                     (let metadata' = metadata\<lparr>isAcceptableTypo := typo\<rparr>
                      in [if needEscapeValueForKey keyType
                          then emitKeyValueToHandler lineNum keyType
                                 (fst (maybeEscapePattern val)) unknownText
                          else emitKeyValueToHandler lineNum keyType val unknownText,
                          ReportLineMetadata lineNum metadata']))))"

text \<open>
  The loop of \<open>parse\<close> over the characters of the body, with its five variables; it gives
  the calls made from the current character on, \<open>handleRobotsEnd\<close> last.  10 is LF and 13
  is CR.
\<close>

fun parseLoop :: "jsstring \<Rightarrow> jsstring \<Rightarrow> nat \<Rightarrow> nat \<Rightarrow> bool \<Rightarrow> bool \<Rightarrow> event list" where
  "parseLoop [] lineBuffer lineNum bomPos lastWasCarriageReturn lineTooLong =
     parseAndEmitLine (lineNum + 1) lineBuffer lineTooLong @ [HandleRobotsEnd]"
| "parseLoop (ch # rest) lineBuffer lineNum bomPos lastWasCarriageReturn lineTooLong =
     (if bomPos < length UTF8_BOM \<and> ch = UTF8_BOM ! bomPos
      then parseLoop rest lineBuffer lineNum (bomPos + 1) lastWasCarriageReturn lineTooLong
      else if ch = 10 \<or> ch = 13 then
        (if length lineBuffer = 0 \<and> lastWasCarriageReturn \<and> ch = 10
         then parseLoop rest [] lineNum (length UTF8_BOM) (ch = 13) lineTooLong
         else parseAndEmitLine (lineNum + 1) lineBuffer lineTooLong @
              parseLoop rest [] (lineNum + 1) (length UTF8_BOM) (ch = 13) False)
      else if length lineBuffer < K_MAX_LINE_LEN - 1
        then parseLoop rest (lineBuffer @ [ch]) lineNum (length UTF8_BOM) False lineTooLong
        else parseLoop rest lineBuffer lineNum (length UTF8_BOM) False True)"

definition parseRobotsTxt :: "jsstring \<Rightarrow> event list" where
  "parseRobotsTxt robotsBody = HandleRobotsStart # parseLoop robotsBody [] 0 0 False False"

text \<open>A text of the given lines, each ended by LF.\<close>

definition robotsLines :: "string list \<Rightarrow> jsstring" where
  "robotsLines ls = concat (map (\<lambda>l. js l @ [10]) ls)"

section \<open>match-strategy: \<open>LongestMatchRobotsMatchStrategy\<close>\<close>

definition matchAllow :: "jsstring \<Rightarrow> jsstring \<Rightarrow> int" where
  "matchAllow path pattern = (if matches path pattern then int (length pattern) else - 1)"

definition matchDisallow :: "jsstring \<Rightarrow> jsstring \<Rightarrow> int" where
  "matchDisallow path pattern = (if matches path pattern then int (length pattern) else - 1)"

section \<open>matcher: \<open>RobotsMatcher\<close>\<close>

text \<open>
  The class \<open>Match\<close>; its two fields are named after their getters.  The fields \<open>path\<close> and
  \<open>userAgents\<close> of the matcher are \<open>thisPath\<close> and \<open>thisUserAgents\<close>.
\<close>

record Match =
  getPriority :: int
  getLine :: nat

definition newMatch :: Match where
  "newMatch = \<lparr>getPriority = K_NO_MATCH_PRIORITY, getLine = 0\<rparr>"

definition higherPriorityMatch :: "Match \<Rightarrow> Match \<Rightarrow> Match" where
  "higherPriorityMatch a b = (if getPriority a > getPriority b then a else b)"

record MatchHierarchy =
  global :: Match
  specific :: Match

record RobotsMatcher =
  allow :: MatchHierarchy
  disallowMatch :: MatchHierarchy
  seenGlobalAgent :: bool
  seenSpecificAgent :: bool
  everSeenSpecificAgentFlag :: bool
  seenSeparator :: bool
  thisPath :: jsstring
  thisUserAgents :: "jsstring list"

text \<open>\<open>new RobotsMatcher()\<close>.\<close>

definition newRobotsMatcher :: RobotsMatcher where
  "newRobotsMatcher =
     \<lparr>allow = \<lparr>global = newMatch, specific = newMatch\<rparr>,
      disallowMatch = \<lparr>global = newMatch, specific = newMatch\<rparr>,
      seenGlobalAgent = False, seenSpecificAgent = False,
      everSeenSpecificAgentFlag = False, seenSeparator = False,
      thisPath = [], thisUserAgents = []\<rparr>"

definition isAgentChar :: "jschar \<Rightarrow> bool" where
  "isAgentChar ch \<longleftrightarrow> (97 \<le> ch \<and> ch \<le> 122) \<or> (65 \<le> ch \<and> ch \<le> 90) \<or> ch = 45 \<or> ch = 95"

definition extractUserAgent :: "jsstring \<Rightarrow> jsstring" where
  "extractUserAgent userAgent = takeWhile isAgentChar userAgent"

definition disallow :: "RobotsMatcher \<Rightarrow> bool" where
  "disallow m =
     (if getPriority (specific (allow m)) > 0 \<or> getPriority (specific (disallowMatch m)) > 0
      then getPriority (specific (disallowMatch m)) > getPriority (specific (allow m))
      else if everSeenSpecificAgentFlag m then False
      else if getPriority (global (disallowMatch m)) > 0 \<or> getPriority (global (allow m)) > 0
      then getPriority (global (disallowMatch m)) > getPriority (global (allow m))
      else False)"

definition RobotsMatcher_matchingLine :: "RobotsMatcher \<Rightarrow> nat" where
  "RobotsMatcher_matchingLine m =
     (if everSeenSpecificAgentFlag m
      then getLine (higherPriorityMatch (specific (disallowMatch m)) (specific (allow m)))
      else getLine (higherPriorityMatch (global (disallowMatch m)) (global (allow m))))"

datatype error = PathMustStartWithSlash

definition initUserAgentsAndPath ::
  "RobotsMatcher \<Rightarrow> jsstring list \<Rightarrow> jsstring \<Rightarrow> error + RobotsMatcher" where
  "initUserAgentsAndPath m userAgents path =
     (if \<not> startsWith path [47] then Inl PathMustStartWithSlash
      else Inr (m\<lparr>thisPath := path, thisUserAgents := userAgents\<rparr>))"

definition seenAnyAgent :: "RobotsMatcher \<Rightarrow> bool" where
  "seenAnyAgent m \<longleftrightarrow> seenGlobalAgent m \<or> seenSpecificAgent m"

definition handleRobotsStart :: "RobotsMatcher \<Rightarrow> RobotsMatcher" where
  "handleRobotsStart m =
     m\<lparr>allow := \<lparr>global = newMatch, specific = newMatch\<rparr>,
       disallowMatch := \<lparr>global = newMatch, specific = newMatch\<rparr>,
       seenGlobalAgent := False, seenSpecificAgent := False,
       everSeenSpecificAgentFlag := False, seenSeparator := False\<rparr>"

text \<open>The value is global when it is \<open>*\<close> alone or \<open>*\<close> followed by white space.\<close>

definition isGlobalAgentValue :: "jsstring \<Rightarrow> bool" where
  "isGlobalAgentValue userAgent \<longleftrightarrow>
     length userAgent \<ge> 1 \<and> userAgent ! 0 = 42 \<and>
     (length userAgent = 1 \<or> isWhiteSpace (userAgent ! 1))"

definition handleUserAgent :: "RobotsMatcher \<Rightarrow> nat \<Rightarrow> jsstring \<Rightarrow> RobotsMatcher" where
  "handleUserAgent m lineNum userAgent =
     (let m1 = (if seenSeparator m
                then m\<lparr>seenSpecificAgent := False, seenGlobalAgent := False,
                        seenSeparator := False\<rparr>
                else m)
      in if isGlobalAgentValue userAgent then m1\<lparr>seenGlobalAgent := True\<rparr>
         else if list_ex (\<lambda>agent. toLowerCase (extractUserAgent userAgent) = toLowerCase agent)
                   (thisUserAgents m1)
         then m1\<lparr>everSeenSpecificAgentFlag := True, seenSpecificAgent := True\<rparr>
         else m1)"

text \<open>
  The value of an Allow line sets off the directory rule when the text from its last \<open>/\<close>
  (47) on starts with \<open>/index.htm\<close>; the rule's pattern is the value up to that \<open>/\<close>,
  followed by \<open>$\<close> (36).
\<close>

definition indexHtmPattern :: "jsstring \<Rightarrow> jsstring option" where
  "indexHtmPattern val =
     (case lastIndexOf 47 val of
        None \<Rightarrow> None
      | Some slashPos \<Rightarrow>
          if startsWith (sliceFrom val slashPos) (js ''/index.htm'')
          then Some (slice val 0 (slashPos + 1) @ [36])
          else None)"

function handleAllow :: "RobotsMatcher \<Rightarrow> nat \<Rightarrow> jsstring \<Rightarrow> RobotsMatcher" where
  "handleAllow m lineNum val =
     (if \<not> seenAnyAgent m then m
      else
        (let m1 = m\<lparr>seenSeparator := True\<rparr>;
             priority = matchAllow (thisPath m1) val
         in if priority \<ge> 0 then
              (if seenSpecificAgent m1 then
                 (if getPriority (specific (allow m1)) < priority
                  then m1\<lparr>allow := (allow m1)\<lparr>specific :=
                            \<lparr>getPriority = priority, getLine = lineNum\<rparr>\<rparr>\<rparr>
                  else m1)
               else
                 (if getPriority (global (allow m1)) < priority
                  then m1\<lparr>allow := (allow m1)\<lparr>global :=
                            \<lparr>getPriority = priority, getLine = lineNum\<rparr>\<rparr>\<rparr>
                  else m1))
            else
              (case indexHtmPattern val of
                 None \<Rightarrow> m1
               | Some newPattern \<Rightarrow> handleAllow m1 lineNum newPattern)))"
  by pat_completeness auto
termination
proof (relation "measure (\<lambda>(m, lineNum, val). if indexHtmPattern val = None then 0 else 1)")
  show "wf (measure (\<lambda>(m, lineNum, val). if indexHtmPattern val = None then 0 else 1 :: nat))"
    by simp
next
  fix m :: RobotsMatcher and lineNum :: nat and val newPattern :: jsstring
    and m1 :: RobotsMatcher and priority :: int
  assume trig: "indexHtmPattern val = Some newPattern"
  have last_keep: "lastIndexOf c (take (Suc p) xs @ [d]) = Some p"
    if "lastIndexOf c xs = Some p" "d \<noteq> c" for c d :: nat and p xs
    using that
  proof (induction xs arbitrary: p)
    case Nil
    then show ?case by simp
  next
    case (Cons x xs)
    show ?case
    proof (cases "lastIndexOf c xs")
      case None
      then have "p = 0" "x = c" using Cons.prems by (auto split: if_splits)
      then show ?thesis using Cons.prems by simp
    next
      case (Some q)
      then have p: "p = Suc q" using Cons.prems by simp
      have "lastIndexOf c (take (Suc q) xs @ [d]) = Some q"
        using Cons.IH[OF Some Cons.prems(2)] .
      then show ?thesis using p by simp
    qed
  qed
  have bound: "p < length xs" if "lastIndexOf c xs = Some p" for c :: nat and p xs
    using that by (induction xs arbitrary: p) (auto split: option.splits if_splits)
  obtain slashPos where sp: "lastIndexOf 47 val = Some slashPos"
    and np: "newPattern = slice val 0 (slashPos + 1) @ [36]"
    using trig by (auto simp: indexHtmPattern_def split: option.splits if_splits)
  have l: "lastIndexOf 47 newPattern = Some slashPos"
    using last_keep[OF sp, of 36] by (simp add: np slice_def)
  have "sliceFrom newPattern slashPos = [val ! slashPos, 36]"
    using bound[OF sp] by (simp add: np slice_def sliceFrom_def drop_take take_Suc_conv_app_nth)
  then have "indexHtmPattern newPattern = None"
    using l by (simp add: indexHtmPattern_def startsWith_def js_def)
  then show "((m1, lineNum, newPattern), (m, lineNum, val))
      \<in> measure (\<lambda>(m, lineNum, val). if indexHtmPattern val = None then 0 else 1)"
    using trig by simp
qed

declare handleAllow.simps [simp del]

definition handleDisallow :: "RobotsMatcher \<Rightarrow> nat \<Rightarrow> jsstring \<Rightarrow> RobotsMatcher" where
  "handleDisallow m lineNum val =
     (if \<not> seenAnyAgent m then m
      else
        (let m1 = m\<lparr>seenSeparator := True\<rparr>;
             priority = matchDisallow (thisPath m1) val
         in if priority \<ge> 0 then
              (if seenSpecificAgent m1 then
                 (if getPriority (specific (disallowMatch m1)) < priority
                  then m1\<lparr>disallowMatch := (disallowMatch m1)\<lparr>specific :=
                            \<lparr>getPriority = priority, getLine = lineNum\<rparr>\<rparr>\<rparr>
                  else m1)
               else
                 (if getPriority (global (disallowMatch m1)) < priority
                  then m1\<lparr>disallowMatch := (disallowMatch m1)\<lparr>global :=
                            \<lparr>getPriority = priority, getLine = lineNum\<rparr>\<rparr>\<rparr>
                  else m1))
            else m1))"

text \<open>The matcher as a handler: one call of the parser, applied to the matcher's state.\<close>

fun matcherHandle :: "RobotsMatcher \<Rightarrow> event \<Rightarrow> RobotsMatcher" where
  "matcherHandle m HandleRobotsStart = handleRobotsStart m"
| "matcherHandle m HandleRobotsEnd = m"
| "matcherHandle m (HandleUserAgent lineNum val) = handleUserAgent m lineNum val"
| "matcherHandle m (HandleAllow lineNum val) = handleAllow m lineNum val"
| "matcherHandle m (HandleDisallow lineNum val) = handleDisallow m lineNum val"
| "matcherHandle m (HandleSitemap lineNum val) = m"
| "matcherHandle m (HandleUnknownAction lineNum action val) = m"
| "matcherHandle m (ReportLineMetadata lineNum metadata) = m"

text \<open>
  \<open>allowedByRobots\<close> gives the error that \<open>initUserAgentsAndPath\<close> throws, or the answer
  together with the state in which it leaves the matcher.
\<close>

definition allowedByRobots ::
  "RobotsMatcher \<Rightarrow> jsstring \<Rightarrow> jsstring list \<Rightarrow> jsstring \<Rightarrow> error + bool \<times> RobotsMatcher" where
  "allowedByRobots m robotsBody userAgents url =
     (case initUserAgentsAndPath m userAgents (getPathParamsQuery url) of
        Inl e \<Rightarrow> Inl e
      | Inr m1 \<Rightarrow>
          (let m2 = foldl matcherHandle m1 (parseRobotsTxt robotsBody)
           in Inr (\<not> disallow m2, m2)))"

definition oneAgentAllowedByRobots ::
  "RobotsMatcher \<Rightarrow> jsstring \<Rightarrow> jsstring \<Rightarrow> jsstring \<Rightarrow> error + bool \<times> RobotsMatcher" where
  "oneAgentAllowedByRobots m robotsTxt userAgent url =
     allowedByRobots m robotsTxt [userAgent] url"

section \<open>parsed-robots: \<open>RulesCollectorHandler\<close> and \<open>ParsedRobots\<close>\<close>

text \<open>
  The field \<open>pattern\<close> of a rule is \<open>rulePattern\<close>, the field \<open>url\<close> of a result is
  \<open>checkedUrl\<close>, and the collector's \<open>seenSeparator\<close> is \<open>collectorSeenSeparator\<close>.  The
  set \<open>agents\<close> of a group is the list of its members in the order of insertion.
\<close>

record ParsedRule =
  rulePattern :: jsstring
  lineNumber :: nat
  isAllow :: bool

record AgentGroup =
  agents :: "jsstring list"
  rules :: "ParsedRule list"
  isGlobal :: bool

record RulesCollectorHandler =
  globalRules :: "ParsedRule list"
  agentGroups :: "AgentGroup list"
  currentGroup :: "AgentGroup option"
  collectorSeenSeparator :: bool

datatype RuleType = RuleAllow | RuleDisallow | RuleNone

record UrlCheckResult =
  checkedUrl :: jsstring
  allowed :: bool
  matchingLine :: nat
  matchedPattern :: jsstring
  matchedRuleType :: RuleType

text \<open>\<open>set.add(x)\<close>.\<close>

definition setAdd :: "jsstring list \<Rightarrow> jsstring \<Rightarrow> jsstring list" where
  "setAdd s x = (if x \<in> set s then s else s @ [x])"

definition newRulesCollectorHandler :: RulesCollectorHandler where
  "newRulesCollectorHandler =
     \<lparr>globalRules = [], agentGroups = [], currentGroup = None, collectorSeenSeparator = False\<rparr>"

definition collectRobotsStart :: "RulesCollectorHandler \<Rightarrow> RulesCollectorHandler" where
  "collectRobotsStart h =
     h\<lparr>globalRules := [], agentGroups := [], currentGroup := None,
       collectorSeenSeparator := False\<rparr>"

definition finalizeCurrentGroup :: "RulesCollectorHandler \<Rightarrow> RulesCollectorHandler" where
  "finalizeCurrentGroup h =
     (case currentGroup h of
        None \<Rightarrow> h
      | Some g \<Rightarrow> if length (rules g) > 0 then h\<lparr>agentGroups := agentGroups h @ [g]\<rparr> else h)"

definition collectRobotsEnd :: "RulesCollectorHandler \<Rightarrow> RulesCollectorHandler" where
  "collectRobotsEnd h = finalizeCurrentGroup h"

definition collectUserAgent ::
  "RulesCollectorHandler \<Rightarrow> nat \<Rightarrow> jsstring \<Rightarrow> RulesCollectorHandler" where
  "collectUserAgent h lineNum userAgent =
     (let h1 = (if collectorSeenSeparator h
                then (finalizeCurrentGroup h)\<lparr>currentGroup := None,
                        collectorSeenSeparator := False\<rparr>
                else h);
          g = (case currentGroup h1 of
                 None \<Rightarrow> \<lparr>agents = [], rules = [], isGlobal = False\<rparr>
               | Some g \<Rightarrow> g)
      in if isGlobalAgentValue userAgent then h1\<lparr>currentGroup := Some (g\<lparr>isGlobal := True\<rparr>)\<rparr>
         else
           (let extracted = extractUserAgent userAgent
            in if length extracted > 0
               then h1\<lparr>currentGroup := Some (g\<lparr>agents := setAdd (agents g) (toLowerCase extracted)\<rparr>)\<rparr>
               else h1\<lparr>currentGroup := Some g\<rparr>))"

definition addRule ::
  "RulesCollectorHandler \<Rightarrow> nat \<Rightarrow> jsstring \<Rightarrow> bool \<Rightarrow> RulesCollectorHandler" where
  "addRule h lineNum pattern isAllowRule =
     (case currentGroup h of
        None \<Rightarrow> h
      | Some g \<Rightarrow>
          (let rule = \<lparr>rulePattern = pattern, lineNumber = lineNum, isAllow = isAllowRule\<rparr>;
               h1 = h\<lparr>collectorSeenSeparator := True,
                      currentGroup := Some (g\<lparr>rules := rules g @ [rule]\<rparr>)\<rparr>
           in if isGlobal g then h1\<lparr>globalRules := globalRules h1 @ [rule]\<rparr> else h1))"

definition collectAllow ::
  "RulesCollectorHandler \<Rightarrow> nat \<Rightarrow> jsstring \<Rightarrow> RulesCollectorHandler" where
  "collectAllow h lineNum val =
     (if length val = 0 then h
      else
        (let h1 = addRule h lineNum val True
         in case lastIndexOf 47 val of
              None \<Rightarrow> h1
            | Some slashPos \<Rightarrow>
                if startsWith (sliceFrom val slashPos) (js ''/index.htm'')
                then addRule h1 lineNum (slice val 0 (slashPos + 1) @ [36]) True
                else h1))"

definition collectDisallow ::
  "RulesCollectorHandler \<Rightarrow> nat \<Rightarrow> jsstring \<Rightarrow> RulesCollectorHandler" where
  "collectDisallow h lineNum val =
     (if length val = 0 then h else addRule h lineNum val False)"

text \<open>The collector as a handler.\<close>

fun collectorHandle :: "RulesCollectorHandler \<Rightarrow> event \<Rightarrow> RulesCollectorHandler" where
  "collectorHandle h HandleRobotsStart = collectRobotsStart h"
| "collectorHandle h HandleRobotsEnd = collectRobotsEnd h"
| "collectorHandle h (HandleUserAgent lineNum val) = collectUserAgent h lineNum val"
| "collectorHandle h (HandleAllow lineNum val) = collectAllow h lineNum val"
| "collectorHandle h (HandleDisallow lineNum val) = collectDisallow h lineNum val"
| "collectorHandle h (HandleSitemap lineNum val) = h"
| "collectorHandle h (HandleUnknownAction lineNum action val) = h"
| "collectorHandle h (ReportLineMetadata lineNum metadata) = h"

record ParsedRobots =
  parsedGlobalRules :: "ParsedRule list"
  agentRulesMap :: "jsstring \<rightharpoonup> ParsedRule list"
  explicitAgents :: "jsstring list"

text \<open>
  The two loops of \<open>ParsedRobots.parse\<close> over the groups and over the agents of a group;
  the state is the map and the set of explicit agents.
\<close>

fun addGroupAgents ::
  "ParsedRule list \<Rightarrow> jsstring list \<Rightarrow> (jsstring \<rightharpoonup> ParsedRule list) \<times> jsstring list \<Rightarrow>
   (jsstring \<rightharpoonup> ParsedRule list) \<times> jsstring list" where
  "addGroupAgents groupRules [] acc = acc"
| "addGroupAgents groupRules (agent # others) (rulesMap, explicit) =
     addGroupAgents groupRules others
       (rulesMap(agent \<mapsto> (case rulesMap agent of None \<Rightarrow> [] | Some existing \<Rightarrow> existing) @ groupRules),
        setAdd explicit agent)"

fun addGroups ::
  "AgentGroup list \<Rightarrow> (jsstring \<rightharpoonup> ParsedRule list) \<times> jsstring list \<Rightarrow>
   (jsstring \<rightharpoonup> ParsedRule list) \<times> jsstring list" where
  "addGroups [] acc = acc"
| "addGroups (g # gs) acc = addGroups gs (addGroupAgents (rules g) (agents g) acc)"

definition ParsedRobots_parse :: "jsstring \<Rightarrow> ParsedRobots" where
  "ParsedRobots_parse robotsBody =
     (let handler = foldl collectorHandle newRulesCollectorHandler (parseRobotsTxt robotsBody)
      in case addGroups (agentGroups handler) (Map.empty, []) of
           (rulesMap, explicit) \<Rightarrow>
             \<lparr>parsedGlobalRules = globalRules handler, agentRulesMap = rulesMap,
              explicitAgents = explicit\<rparr>)"

text \<open>
  The loop of \<open>checkSingleUrl\<close> over the rules keeps the best Allow and the best Disallow
  candidate: priority, line and pattern of each.
\<close>

record Best =
  bestPriority :: int
  bestLine :: nat
  bestPattern :: jsstring

definition noBest :: Best where
  "noBest = \<lparr>bestPriority = K_NO_MATCH_PRIORITY, bestLine = 0, bestPattern = []\<rparr>"

fun bestCandidates :: "jsstring \<Rightarrow> ParsedRule list \<Rightarrow> Best \<times> Best \<Rightarrow> Best \<times> Best" where
  "bestCandidates path [] acc = acc"
| "bestCandidates path (rule # others) (bestAllow, bestDisallow) =
     (if matches path (rulePattern rule) then
        (let priority = int (length (rulePattern rule));
             found = \<lparr>bestPriority = priority, bestLine = lineNumber rule,
                      bestPattern = rulePattern rule\<rparr>
         in if isAllow rule then
              bestCandidates path others
                (if priority > bestPriority bestAllow then found else bestAllow, bestDisallow)
            else
              bestCandidates path others
                (bestAllow, if priority > bestPriority bestDisallow then found else bestDisallow))
      else bestCandidates path others (bestAllow, bestDisallow))"

definition checkSingleUrl :: "jsstring \<Rightarrow> ParsedRule list \<Rightarrow> UrlCheckResult" where
  "checkSingleUrl url ruleList =
     (case bestCandidates (getPathParamsQuery url) ruleList (noBest, noBest) of
        (bestAllow, bestDisallow) \<Rightarrow>
          (let isAllowed = (bestPriority bestDisallow \<le> bestPriority bestAllow)
           in if bestPriority bestAllow > bestPriority bestDisallow then
                \<lparr>checkedUrl = url, allowed = isAllowed, matchingLine = bestLine bestAllow,
                 matchedPattern = bestPattern bestAllow, matchedRuleType = RuleAllow\<rparr>
              else if bestPriority bestDisallow > bestPriority bestAllow then
                \<lparr>checkedUrl = url, allowed = isAllowed, matchingLine = bestLine bestDisallow,
                 matchedPattern = bestPattern bestDisallow, matchedRuleType = RuleDisallow\<rparr>
              else if bestPriority bestAllow \<ge> 0 then
                \<lparr>checkedUrl = url, allowed = isAllowed, matchingLine = bestLine bestAllow,
                 matchedPattern = bestPattern bestAllow, matchedRuleType = RuleAllow\<rparr>
              else
                \<lparr>checkedUrl = url, allowed = isAllowed, matchingLine = 0,
                 matchedPattern = [], matchedRuleType = RuleNone\<rparr>))"

text \<open>The rules that \<open>checkUrls\<close> selects for an agent.\<close>

definition rulesFor :: "ParsedRobots \<Rightarrow> jsstring \<Rightarrow> ParsedRule list" where
  "rulesFor p userAgent =
     (case agentRulesMap p (toLowerCase (extractUserAgent userAgent)) of
        Some agentRules \<Rightarrow> agentRules
      | None \<Rightarrow> parsedGlobalRules p)"

definition checkUrls :: "ParsedRobots \<Rightarrow> jsstring \<Rightarrow> jsstring list \<Rightarrow> UrlCheckResult list" where
  "checkUrls p userAgent urls = map (\<lambda>url. checkSingleUrl url (rulesFor p userAgent)) urls"

definition checkUrl :: "ParsedRobots \<Rightarrow> jsstring \<Rightarrow> jsstring \<Rightarrow> UrlCheckResult" where
  "checkUrl p userAgent url = checkUrls p userAgent [url] ! 0"

section \<open>Notions of the specification\<close>

text \<open>
  The scope that decides the verdict of the matcher: the specific one if it has a
  candidate of positive priority, the global one otherwise.  The result is the pair of
  the scope's best Allow and best Disallow candidate.
\<close>

definition decidingScope :: "RobotsMatcher \<Rightarrow> Match \<times> Match" where
  "decidingScope m =
     (if getPriority (specific (allow m)) > 0 \<or> getPriority (specific (disallowMatch m)) > 0
      then (specific (allow m), specific (disallowMatch m))
      else (global (allow m), global (disallowMatch m)))"

text \<open>
  The text after the prefix of the byte order mark that the parser skips: the characters
  that agree with the mark from position \<open>bomPos\<close> on are dropped.
\<close>

fun skipBom :: "nat \<Rightarrow> jsstring \<Rightarrow> jsstring" where
  "skipBom bomPos [] = []"
| "skipBom bomPos (ch # rest) =
     (if bomPos < length UTF8_BOM \<and> ch = UTF8_BOM ! bomPos then skipBom (bomPos + 1) rest
      else ch # rest)"

text \<open>
  The logical lines of a text, at full length: LF and CR end a line, an LF right after a
  CR belongs to the same line end, and the text after the last line end is the last line.
  \<open>cur\<close> is the line read so far and \<open>afterCR\<close> tells that the last character was a CR.
\<close>

fun logicalLines :: "jsstring \<Rightarrow> jsstring \<Rightarrow> bool \<Rightarrow> jsstring list" where
  "logicalLines [] cur afterCR = [cur]"
| "logicalLines (ch # rest) cur afterCR =
     (if ch = 10 \<and> afterCR then logicalLines rest [] False
      else if ch = 10 \<or> ch = 13 then cur # logicalLines rest [] (ch = 13)
      else logicalLines rest (cur @ [ch]) False)"

text \<open>
  The calls for a list of logical lines numbered from \<open>lineNum + 1\<close> on, each cut to its
  first \<open>budget\<close> characters and marked as too long when it has more.
\<close>

fun emitLines :: "nat \<Rightarrow> nat \<Rightarrow> jsstring list \<Rightarrow> event list" where
  "emitLines budget lineNum [] = []"
| "emitLines budget lineNum (l # ls) =
     parseAndEmitLine (lineNum + 1) (take budget l) (budget < length l) @
     emitLines budget (lineNum + 1) ls"

section \<open>Properties of \<open>matches\<close>\<close>

lemma wild_fill_length: "length (wild_fill i numPos pos) = length pos"
proof (induction i numPos pos rule: wild_fill.induct)
  case (1 i numPos pos)
  then show ?case by (subst wild_fill.simps) simp
qed

lemma wild_fill_nth:
  "0 < i \<Longrightarrow> numPos \<le> length pos \<Longrightarrow> (\<forall>j < i. pos ! j = a + j) \<Longrightarrow> j < numPos \<Longrightarrow>
   i \<le> numPos \<Longrightarrow> wild_fill i numPos pos ! j = a + j"
proof (induction i numPos pos arbitrary: j rule: wild_fill.induct)
  case (1 i numPos pos)
  show ?case
  proof (cases "i < numPos")
    case True
    have step: "\<forall>k < Suc i. pos[i := pos ! (i - 1) + 1] ! k = a + k"
    proof (intro allI impI)
      fix k assume k: "k < Suc i"
      show "pos[i := pos ! (i - 1) + 1] ! k = a + k"
      proof (cases "k = i")
        case True
        have "pos ! (i - 1) = a + (i - 1)" using "1.prems" by simp
        then show ?thesis using True "1.prems" \<open>i < numPos\<close> by simp
      next
        case False
        then show ?thesis using k "1.prems" by simp
      qed
    qed
    have "wild_fill (Suc i) numPos (pos[i := pos ! (i - 1) + 1]) ! j = a + j"
      using "1.IH"[OF True _ _ step "1.prems"(4)] True "1.prems" by simp
    then show ?thesis using True by (subst wild_fill.simps) simp
  next
    case False
    then have "i = numPos" using "1.prems" by simp
    then show ?thesis using "1.prems" False by (subst wild_fill.simps) simp
  qed
qed

lemma wild_fill_take:
  assumes "0 < n" "n \<le> length pos"
  shows "take n (wild_fill 1 n pos) = [pos ! 0 ..< pos ! 0 + n]"
proof (rule nth_equalityI)
  show "length (take n (wild_fill 1 n pos)) = length [pos ! 0 ..< pos ! 0 + n]"
    using assms by (simp add: wild_fill_length)
next
  fix j assume "j < length (take n (wild_fill 1 n pos))"
  then have j: "j < n" by simp
  have "wild_fill 1 n pos ! j = pos ! 0 + j"
    using assms j by (intro wild_fill_nth) auto
  then show "take n (wild_fill 1 n pos) ! j = [pos ! 0 ..< pos ! 0 + n] ! j"
    using j by simp
qed

lemma pos_inv_hd:
  assumes "pos_inv path numPos pos F"
  shows "pos ! 0 = Min F" and "pos ! 0 \<le> length path" and "F \<noteq> {}"
proof -
  obtain x xs where tk: "take numPos pos = x # xs"
    using assms by (cases "take numPos pos") (auto simp: pos_inv_def)
  have x: "x = pos ! 0"
    using tk assms by (metis nth_take nth_Cons_0 pos_inv_def)
  have F: "F = insert x (set xs)" and srt: "\<forall>y \<in> set xs. x < y"
    using tk assms by (auto simp: pos_inv_def)
  have "Min F = x"
    unfolding F by (rule Min_eqI) (use srt in \<open>auto simp: less_imp_le\<close>)
  then show "pos ! 0 = Min F" using x by simp
  show "pos ! 0 \<le> length path" using assms F x by (auto simp: pos_inv_def)
  show "F \<noteq> {}" using F by simp
qed

lemma pos_inv_last:
  assumes "pos_inv path numPos pos F"
  shows "pos ! (numPos - 1) = length path \<longleftrightarrow> length path \<in> F"
proof -
  let ?xs = "take numPos pos"
  have len: "length ?xs = numPos" and pos: "0 < numPos"
    using assms by (auto simp: pos_inv_def)
  have last: "?xs ! (numPos - 1) = pos ! (numPos - 1)" using pos by simp
  have inF: "pos ! (numPos - 1) \<in> F"
    using assms len pos last by (metis diff_less nth_mem pos_inv_def zero_less_one)
  show ?thesis
  proof
    assume "pos ! (numPos - 1) = length path"
    then show "length path \<in> F" using inF by simp
  next
    assume "length path \<in> F"
    then obtain k where k: "k < numPos" "?xs ! k = length path"
      using assms len by (metis in_set_conv_nth pos_inv_def)
    have "?xs ! (numPos - 1) \<le> length path"
      using inF assms last by (auto simp: pos_inv_def)
    moreover have "k < numPos - 1 \<Longrightarrow> ?xs ! k < ?xs ! (numPos - 1)"
    proof -
      assume lt: "k < numPos - 1"
      have s: "sorted_wrt (<) ?xs" using assms by (simp add: pos_inv_def)
      have "numPos - 1 < length ?xs" using len pos by simp
      from sorted_wrt_nth_less[OF s lt this] show ?thesis .
    qed
    ultimately have "k = numPos - 1" using k by (cases "k < numPos - 1") auto
    then show "pos ! (numPos - 1) = length path" using k last by simp
  qed
qed

lemma pos_inv_star:
  assumes "pos_inv path numPos pos F"
  defines "n \<equiv> length path - pos ! 0 + 1"
  shows "pos_inv path n (wild_fill 1 n pos) (frontier_star path F)"
proof -
  have a: "pos ! 0 = Min F" "pos ! 0 \<le> length path" using pos_inv_hd[OF assms(1)] by auto
  have lp: "length pos = length path + 1" using assms(1) by (simp add: pos_inv_def)
  have n: "0 < n" "n \<le> length pos" using a lp by (auto simp: n_def)
  have tk: "take n (wild_fill 1 n pos) = [pos ! 0 ..< length path + 1]"
    using wild_fill_take[OF n] a by (simp add: n_def)
  have srt: "sorted_wrt (<) [pos ! 0 ..< length path + 1]" by (rule sorted_wrt_upt)
  have st: "set [pos ! 0 ..< length path + 1] = {Min F .. length path}"
    using a by auto
  show ?thesis
    unfolding pos_inv_def frontier_star_def tk
    using n lp srt st by (simp add: wild_fill_length del: upt_Suc)
qed

lemma lit_loop_spec:
  "lit_loop path pat numPos i k pos = (k', pos') \<Longrightarrow> k \<le> i \<Longrightarrow> numPos \<le> length pos \<Longrightarrow>
   length pos' = length pos \<and> k' \<le> k + (numPos - i) \<and>
   take k' pos' =
     take k pos @ map Suc (filter (\<lambda>x. x < length path \<and> path ! x = pat) (drop i (take numPos pos)))"
proof (induction path pat numPos i k pos rule: lit_loop.induct)
  case (1 path pat numPos i k pos)
  show ?case
  proof (cases "i < numPos")
    case False
    have "lit_loop path pat numPos i k pos = (k, pos)"
      using False by (subst lit_loop.simps) simp
    then have "k' = k" "pos' = pos" using "1.prems"(1) by simp_all
    then show ?thesis using False by simp
  next
    case True
    then have ipos: "i < length pos" using "1.prems" by simp
    have dr: "drop i (take numPos pos) = pos ! i # drop (Suc i) (take numPos pos)"
      using True ipos by (simp add: Cons_nth_drop_Suc[symmetric])
    show ?thesis
    proof (cases "pos ! i < length path \<and> path ! (pos ! i) = pat")
      case hit: True
      let ?pos = "pos[k := pos ! i + 1]"
      have run: "lit_loop path pat numPos (Suc i) (Suc k) ?pos = (k', pos')"
        using "1.prems"(1) True hit by (subst (asm) lit_loop.simps) simp
      have IH: "length pos' = length ?pos \<and> k' \<le> Suc k + (numPos - Suc i) \<and>
        take k' pos' = take (Suc k) ?pos @
          map Suc (filter (\<lambda>x. x < length path \<and> path ! x = pat) (drop (Suc i) (take numPos ?pos)))"
        using "1.IH"(1)[OF True hit run] "1.prems" by simp
      have t1: "take (Suc k) ?pos = take k pos @ [pos ! i + 1]"
        using "1.prems" ipos by (simp add: take_Suc_conv_app_nth)
      have t2: "drop (Suc i) (take numPos ?pos) = drop (Suc i) (take numPos pos)"
        using "1.prems" by (simp add: take_update_swap drop_update_cancel)
      have bound: "k' \<le> k + (numPos - i)" using IH True by arith
      have "take k' pos' = take k pos @
          map Suc (filter (\<lambda>x. x < length path \<and> path ! x = pat) (drop i (take numPos pos)))"
        using IH t1 t2 dr hit by simp
      then show ?thesis using IH bound by simp
    next
      case miss: False
      have run: "lit_loop path pat numPos (Suc i) k pos = (k', pos')"
        using "1.prems"(1) True miss by (subst (asm) lit_loop.simps) auto
      have IH: "length pos' = length pos \<and> k' \<le> k + (numPos - Suc i) \<and>
        take k' pos' = take k pos @
          map Suc (filter (\<lambda>x. x < length path \<and> path ! x = pat) (drop (Suc i) (take numPos pos)))"
        using "1.IH"(2)[OF True miss run] "1.prems" by simp
      have bound: "k' \<le> k + (numPos - i)" using IH True by arith
      have "take k' pos' = take k pos @
          map Suc (filter (\<lambda>x. x < length path \<and> path ! x = pat) (drop i (take numPos pos)))"
        using IH dr miss by auto
      then show ?thesis using IH bound by simp
    qed
  qed
qed

lemma pos_inv_lit:
  assumes inv: "pos_inv path numPos pos F"
    and run: "lit_loop path pat numPos 0 0 pos = (k', pos')"
  shows "k' = 0 \<longleftrightarrow> frontier_lit path pat F = {}"
    and "k' \<noteq> 0 \<Longrightarrow> pos_inv path k' pos' (frontier_lit path pat F)"
proof -
  let ?P = "\<lambda>x. x < length path \<and> path ! x = pat"
  let ?ys = "map Suc (filter ?P (take numPos pos))"
  have np: "numPos \<le> length pos" using inv by (simp add: pos_inv_def)
  have spec: "length pos' = length pos" "take k' pos' = ?ys" "k' \<le> numPos"
    using lit_loop_spec[OF run _ np] by auto
  have k'le: "k' \<le> length pos'" using spec np by simp
  have "length (take k' pos') = k'" using k'le by simp
  then have lenk: "length ?ys = k'" using spec(2) by simp
  have setys: "set ?ys = frontier_lit path pat F"
    using inv by (auto simp: frontier_lit_def pos_inv_def)
  show "k' = 0 \<longleftrightarrow> frontier_lit path pat F = {}"
  proof -
    have "k' = 0 \<longleftrightarrow> ?ys = []" using lenk by auto
    also have "\<dots> \<longleftrightarrow> set ?ys = {}" by (simp only: set_empty)
    also have "\<dots> \<longleftrightarrow> frontier_lit path pat F = {}" by (simp only: setys)
    finally show ?thesis .
  qed
  assume "k' \<noteq> 0"
  have "sorted_wrt (<) (filter ?P (take numPos pos))"
    using inv by (simp add: pos_inv_def sorted_wrt_filter)
  then have "sorted_wrt (<) ?ys" by (simp add: sorted_wrt_map)
  moreover have "\<forall>x \<in> frontier_lit path pat F. x \<le> length path"
    by (auto simp: frontier_lit_def)
  ultimately show "pos_inv path k' pos' (frontier_lit path pat F)"
    unfolding pos_inv_def using \<open>k' \<noteq> 0\<close> k'le spec setys inv
    by (simp add: pos_inv_def)
qed

lemma matches_loop_frontier:
  "pos_inv path numPos pos F \<Longrightarrow> matches_loop path pattern numPos pos = frontier_run path pattern F"
proof (induction pattern arbitrary: numPos pos F)
  case Nil
  then show ?case using pos_inv_hd(3)[OF Nil] by simp
next
  case (Cons pat rest)
  show ?case
  proof (cases "pat = 36 \<and> rest = []")
    case True
    then show ?thesis using pos_inv_last[OF Cons.prems] by simp
  next
    case notend: False
    show ?thesis
    proof (cases "pat = 42")
      case True
      have "matches_loop path rest (length path - pos ! 0 + 1)
              (wild_fill 1 (length path - pos ! 0 + 1) pos)
            = frontier_run path rest (frontier_star path F)"
        by (rule Cons.IH[OF pos_inv_star[OF Cons.prems]])
      then show ?thesis using True notend by (simp add: Let_def)
    next
      case False
      obtain k' pos' where run: "lit_loop path pat numPos 0 0 pos = (k', pos')"
        by (cases "lit_loop path pat numPos 0 0 pos")
      note lit = pos_inv_lit[OF Cons.prems run]
      show ?thesis
      proof (cases "k' = 0")
        case True
        then show ?thesis using False notend run lit(1) by auto
      next
        case nz: False
        have "matches_loop path rest k' pos' = frontier_run path rest (frontier_lit path pat F)"
          by (rule Cons.IH[OF lit(2)[OF nz]])
        then show ?thesis using False notend run lit(1) nz by auto
      qed
    qed
  qed
qed

text \<open>
  C5.  For every path and pattern, \<open>matches\<close> computes the frontier semantics: from the
  frontier \<open>{0}\<close>, a final \<open>$\<close> succeeds iff the path's length is in the frontier, \<open>*\<close>
  replaces the frontier by the range from its minimum to the path's length, any other
  character (a non-final \<open>$\<close> too) advances the offsets whose path character equals it and
  fails when none remains, and a pattern consumed with a non-empty frontier matches.
\<close>

theorem matches_frontier_semantics:
  "matches path pattern = frontier_matches path pattern"
proof -
  have "pos_inv path 1 ((replicate (length path + 1) 0)[0 := 0]) {0}"
    by (simp add: pos_inv_def take_Suc_conv_app_nth)
  then show ?thesis
    unfolding matches_def frontier_matches_def by (rule matches_loop_frontier)
qed

section \<open>Evaluating the model on concrete texts\<close>

text \<open>The defining equations, collected for the simplifier.\<close>

lemmas string_defs = js_def slice_def sliceFrom_def startsWith_def
  isWhiteSpace_def trim_def isBlank_def toLowerCaseUnit_def toLowerCase_def

lemmas url_defs = isPathChar_def getPathParamsQuery_def isHexDigit_def isLower_def hexToUpper_def
  encodeUnit_def percentByte_def K_HEX_DIGITS_def maybeEscapePattern_def

lemmas matches_defs = matches_def wild_fill.simps lit_loop.simps

lemmas parser_defs = K_MAX_LINE_LEN_def UTF8_BOM_def createLineMetadata_def startsWithIgnoreCase_def
  keyIsUserAgent_def isUserAgentTypo_def keyIsAllow_def isDisallowTypo_def keyIsDisallow_def
  keyIsSitemap_def isSitemapTypo_def parseKey_def getKeyAndValueFrom_def parseAndEmitLine_def
  parseRobotsTxt_def robotsLines_def

lemmas matcher_defs = matchAllow_def matchDisallow_def newMatch_def K_NO_MATCH_PRIORITY_def
  newRobotsMatcher_def isAgentChar_def extractUserAgent_def disallow_def initUserAgentsAndPath_def
  seenAnyAgent_def handleRobotsStart_def isGlobalAgentValue_def handleUserAgent_def
  indexHtmPattern_def handleAllow.simps handleDisallow_def allowedByRobots_def
  oneAgentAllowedByRobots_def

lemmas bulk_defs = setAdd_def newRulesCollectorHandler_def collectRobotsStart_def
  finalizeCurrentGroup_def collectRobotsEnd_def collectUserAgent_def addRule_def collectAllow_def
  collectDisallow_def ParsedRobots_parse_def noBest_def checkSingleUrl_def rulesFor_def
  checkUrls_def checkUrl_def

lemmas eval_defs = string_defs url_defs matches_defs parser_defs matcher_defs bulk_defs Let_def

section \<open>The path of a URL and the matcher's entry point\<close>

lemma findPathChar_Some:
  "findPathChar s i = Some ps \<Longrightarrow> i \<le> ps \<and> ps - i < length s \<and> isPathChar (s ! (ps - i))"
proof (induction s arbitrary: i)
  case Nil
  then show ?case by simp
next
  case (Cons ch rest)
  show ?case
  proof (cases "isPathChar ch")
    case True
    then show ?thesis using Cons.prems by simp
  next
    case False
    then have "findPathChar rest (Suc i) = Some ps" using Cons.prems by simp
    from Cons.IH[OF this] show ?thesis by (auto simp: Suc_diff_Suc less_eq_Suc_le)
  qed
qed

lemma indexOfFrom_Some:
  "indexOfFrom [c] s i = Some h \<Longrightarrow> i \<le> h \<and> h - i < length s \<and> s ! (h - i) = c"
proof (induction s arbitrary: i)
  case Nil
  then show ?case by simp
next
  case (Cons x rest)
  show ?case
  proof (cases "x = c")
    case True
    then show ?thesis using Cons.prems by (simp add: startsWith_def)
  next
    case False
    then have "indexOfFrom [c] rest (Suc i) = Some h"
      using Cons.prems by (simp add: startsWith_def)
    from Cons.IH[OF this] show ?thesis by (auto simp: Suc_diff_Suc less_eq_Suc_le)
  qed
qed

lemma getPathParamsQuery_slash: "startsWith (getPathParamsQuery url) [47]"
proof -
  define searchStart :: nat
    where "searchStart = (if length url \<ge> 2 \<and> url ! 0 = 47 \<and> url ! 1 = 47 then 2 else 0)"
  define protocolEnd0 where "protocolEnd0 = indexOfFrom (js ''://'') (drop searchStart url) searchStart"
  define protocolEnd1 where "protocolEnd1 =
    (case (findPathChar (sliceFrom url searchStart) searchStart, protocolEnd0) of
       (Some e, Some p) \<Rightarrow> if e < p then None else Some p
     | _ \<Rightarrow> protocolEnd0)"
  define protocolEnd where "protocolEnd = (case protocolEnd1 of None \<Rightarrow> searchStart | Some p \<Rightarrow> p + 3)"
  define hashPos where "hashPos = indexOfFrom [35] (drop searchStart url) searchStart"
  have unfold: "getPathParamsQuery url =
    (case findPathChar (drop protocolEnd url) protocolEnd of
       None \<Rightarrow> [47]
     | Some ps \<Rightarrow>
         if (case hashPos of None \<Rightarrow> False | Some h \<Rightarrow> h < ps) then [47]
         else
           (let pathEnd = (case hashPos of None \<Rightarrow> length url | Some h \<Rightarrow> h)
            in if url ! ps \<noteq> 47 then 47 # slice url ps pathEnd else slice url ps pathEnd))"
    unfolding getPathParamsQuery_def Let_def searchStart_def protocolEnd0_def protocolEnd1_def
      protocolEnd_def hashPos_def ..
  show ?thesis
  proof (cases "findPathChar (drop protocolEnd url) protocolEnd")
    case None
    then show ?thesis by (simp add: unfold startsWith_def)
  next
    case (Some ps)
    from findPathChar_Some[OF Some]
    have ps: "ps < length url" "isPathChar (url ! ps)" by auto
    show ?thesis
    proof (cases "case hashPos of None \<Rightarrow> False | Some h \<Rightarrow> h < ps")
      case True
      then show ?thesis using Some by (simp add: unfold startsWith_def)
    next
      case noFrag: False
      define pathEnd where "pathEnd = (case hashPos of None \<Rightarrow> length url | Some h \<Rightarrow> h)"
      have "ps < pathEnd"
      proof (cases hashPos)
        case None
        then show ?thesis using ps by (simp add: pathEnd_def)
      next
        case (Some h)
        from indexOfFrom_Some[OF Some[unfolded hashPos_def]]
        have "url ! h = 35" by auto
        then have "h \<noteq> ps" using ps(2) by (auto simp: isPathChar_def)
        then show ?thesis using noFrag Some by (simp add: pathEnd_def)
      qed
      then obtain k where k: "pathEnd - ps = Suc k" by (cases "pathEnd - ps") auto
      have "drop ps url = url ! ps # drop (Suc ps) url"
        using ps(1) by (simp add: Cons_nth_drop_Suc)
      then have "slice url ps pathEnd = url ! ps # take k (drop (Suc ps) url)"
        by (simp add: slice_def k)
      then show ?thesis
        using Some noFrag by (simp add: unfold startsWith_def Let_def pathEnd_def[symmetric])
    qed
  qed
qed

text \<open>
  C9.  \<open>getPathParamsQuery\<close> returns a string that starts with \<open>/\<close> for every URL,
  \<open>initUserAgentsAndPath\<close> throws exactly when its path does not start with \<open>/\<close>, and so
  \<open>allowedByRobots\<close> returns an answer, never the error, for every state of the matcher,
  body, list of agents and URL.
\<close>

theorem allowedByRobots_never_throws:
  "startsWith (getPathParamsQuery url) [47] \<and>
   ((\<exists>e. initUserAgentsAndPath m userAgents path = Inl e) = (\<not> startsWith path [47])) \<and>
   (\<exists>answer m'. allowedByRobots m robotsBody userAgents url = Inr (answer, m'))"
  using getPathParamsQuery_slash[of url]
  by (simp add: initUserAgentsAndPath_def allowedByRobots_def Let_def)

section \<open>Reuse of a matcher\<close>

lemma handleRobotsStart_init:
  "handleRobotsStart (m\<lparr>thisPath := path, thisUserAgents := userAgents\<rparr>) =
   handleRobotsStart (m'\<lparr>thisPath := path, thisUserAgents := userAgents\<rparr>)"
  by (simp add: handleRobotsStart_def)

text \<open>
  C10.  The result of \<open>allowedByRobots\<close>, and the state it leaves, are the same from every
  state of the matcher, a fresh one or one left by earlier queries: they depend on the
  body, the agents and the URL only, because \<open>handleRobotsStart\<close> clears every candidate
  and flag.
\<close>

theorem allowedByRobots_state_independent:
  "allowedByRobots m robotsBody userAgents url = allowedByRobots m' robotsBody userAgents url"
  using getPathParamsQuery_slash[of url]
    handleRobotsStart_init[where m = m and m' = m' and path = "getPathParamsQuery url"
      and userAgents = userAgents]
  by (simp add: allowedByRobots_def initUserAgentsAndPath_def parseRobotsTxt_def Let_def)

section \<open>The two resolvers\<close>

text \<open>
  C1.  The bulk index and the live resolver give different answers on a text with a
  named group that has no rule, and on a text where an empty Disallow separates two
  groups.  For \<open>User-agent: *\<close>, \<open>Disallow: /\<close>, \<open>User-agent: FooBot\<close> the matcher allows
  \<open>http://x/\<close> to \<open>FooBot\<close> and \<open>checkUrl\<close> denies it; so for \<open>User-agent: FooBot\<close>,
  \<open>Disallow:\<close>, \<open>User-agent: *\<close>, \<open>Disallow: /\<close>.
\<close>

theorem bulk_differs_from_live_resolver:
  "map_sum id fst
     (oneAgentAllowedByRobots newRobotsMatcher
        (robotsLines [''User-agent: *'', ''Disallow: /'', ''User-agent: FooBot''])
        (js ''FooBot'') (js ''http://x/'')) = Inr True \<and>
   allowed
     (checkUrl (ParsedRobots_parse
        (robotsLines [''User-agent: *'', ''Disallow: /'', ''User-agent: FooBot'']))
        (js ''FooBot'') (js ''http://x/'')) = False \<and>
   map_sum id fst
     (oneAgentAllowedByRobots newRobotsMatcher
        (robotsLines [''User-agent: FooBot'', ''Disallow:'', ''User-agent: *'', ''Disallow: /''])
        (js ''FooBot'') (js ''http://x/'')) = Inr True \<and>
   allowed
     (checkUrl (ParsedRobots_parse
        (robotsLines [''User-agent: FooBot'', ''Disallow:'', ''User-agent: *'', ''Disallow: /'']))
        (js ''FooBot'') (js ''http://x/'')) = False"
  by (simp add: eval_defs)

text \<open>
  C2.  On a tie in the scope that decides the verdict the matcher answers Allow and
  \<open>checkUrl\<close> does not.  In the text \<open>User-agent: FooBot\<close>, \<open>Disallow:\<close>, \<open>User-agent: *\<close>,
  \<open>Disallow: /ab\<close>, \<open>User-agent: FooBot\<close>, \<open>Allow: /a\<close>, \<open>Disallow: /a\<close> the rules of
  \<open>FooBot\<close> that match \<open>/ab\<close> are the Allow of line 6 and the Disallow of line 7, both of
  priority 2.  The matcher ends with these two as the candidates of the deciding scope and
  allows \<open>http://x/ab\<close>; the index has put the Disallow of line 4, written for every
  agent, among the rules of \<open>FooBot\<close>, and \<open>checkUrl\<close> denies the URL.
\<close>

theorem tie_denied_by_bulk_index:
  "allowedByRobots newRobotsMatcher
       (robotsLines [''User-agent: FooBot'', ''Disallow:'', ''User-agent: *'', ''Disallow: /ab'',
                     ''User-agent: FooBot'', ''Allow: /a'', ''Disallow: /a''])
       [js ''FooBot''] (js ''http://x/ab'')
     = Inr (True,
         \<lparr>allow = \<lparr>global = \<lparr>getPriority = - 1, getLine = 0\<rparr>,
                   specific = \<lparr>getPriority = 2, getLine = 6\<rparr>\<rparr>,
          disallowMatch = \<lparr>global = \<lparr>getPriority = 3, getLine = 4\<rparr>,
                           specific = \<lparr>getPriority = 2, getLine = 7\<rparr>\<rparr>,
          seenGlobalAgent = False, seenSpecificAgent = True,
          everSeenSpecificAgentFlag = True, seenSeparator = True,
          thisPath = js ''/ab'', thisUserAgents = [js ''FooBot'']\<rparr>) \<and>
   decidingScope
         \<lparr>allow = \<lparr>global = \<lparr>getPriority = - 1, getLine = 0\<rparr>,
                   specific = \<lparr>getPriority = 2, getLine = 6\<rparr>\<rparr>,
          disallowMatch = \<lparr>global = \<lparr>getPriority = 3, getLine = 4\<rparr>,
                           specific = \<lparr>getPriority = 2, getLine = 7\<rparr>\<rparr>,
          seenGlobalAgent = False, seenSpecificAgent = True,
          everSeenSpecificAgentFlag = True, seenSeparator = True,
          thisPath = js ''/ab'', thisUserAgents = [js ''FooBot'']\<rparr>
     = (\<lparr>getPriority = 2, getLine = 6\<rparr>, \<lparr>getPriority = 2, getLine = 7\<rparr>) \<and>
   rulesFor
       (ParsedRobots_parse
          (robotsLines [''User-agent: FooBot'', ''Disallow:'', ''User-agent: *'', ''Disallow: /ab'',
                        ''User-agent: FooBot'', ''Allow: /a'', ''Disallow: /a'']))
       (js ''FooBot'')
     = [\<lparr>rulePattern = js ''/ab'', lineNumber = 4, isAllow = False\<rparr>,
        \<lparr>rulePattern = js ''/a'', lineNumber = 6, isAllow = True\<rparr>,
        \<lparr>rulePattern = js ''/a'', lineNumber = 7, isAllow = False\<rparr>] \<and>
   checkUrl
       (ParsedRobots_parse
          (robotsLines [''User-agent: FooBot'', ''Disallow:'', ''User-agent: *'', ''Disallow: /ab'',
                        ''User-agent: FooBot'', ''Allow: /a'', ''Disallow: /a'']))
       (js ''FooBot'') (js ''http://x/ab'')
     = \<lparr>checkedUrl = js ''http://x/ab'', allowed = False, matchingLine = 4,
        matchedPattern = js ''/ab'', matchedRuleType = RuleDisallow\<rparr>"
  by (simp add: eval_defs decidingScope_def)






section \<open>The directory rule of an Allow line\<close>

text \<open>
  C4.  The directory rule is set off by a value that ends neither in \<open>/index.htm\<close> nor in
  \<open>/index.html\<close>.  For the line \<open>Allow: /a/index.htmx\<close> both handlers find \<open>/index.htm\<close> at
  the start of the text from the last \<open>/\<close> on and add the pattern \<open>/a/$\<close>: the collector
  stores two rules for the line, and under \<open>Disallow: /\<close> both resolvers allow
  \<open>http://x/a/\<close>, which no rule of the text allows when only the two endings count.
\<close>

theorem index_htmx_sets_off_directory_rule:
  "indexHtmPattern (js ''/a/index.htmx'') = Some (js ''/a/$'') \<and>
   map rulePattern (parsedGlobalRules (ParsedRobots_parse
        (robotsLines [''User-agent: *'', ''Allow: /a/index.htmx''])))
     = [js ''/a/index.htmx'', js ''/a/$''] \<and>
   map_sum id fst
     (oneAgentAllowedByRobots newRobotsMatcher
        (robotsLines [''User-agent: *'', ''Allow: /a/index.htmx'', ''Disallow: /''])
        (js ''Bot'') (js ''http://x/a/'')) = Inr True \<and>
   allowed (checkUrl (ParsedRobots_parse
        (robotsLines [''User-agent: *'', ''Allow: /a/index.htmx'', ''Disallow: /'']))
        (js ''Bot'') (js ''http://x/a/'')) = True"
  by (simp add: eval_defs)

section \<open>The parser\<close>

subsection \<open>The byte order mark\<close>

lemma parseLoop_skipBom:
  "parseLoop body lineBuffer lineNum bomPos lastCR tooLong =
   parseLoop (skipBom bomPos body) lineBuffer lineNum (length UTF8_BOM) lastCR tooLong"
proof (induction body arbitrary: bomPos)
  case Nil
  show ?case by simp
next
  case (Cons ch rest)
  show ?case
  proof (cases "bomPos < length UTF8_BOM \<and> ch = UTF8_BOM ! bomPos")
    case True
    then show ?thesis using Cons.IH[of "bomPos + 1"] by simp
  next
    case False
    then have neg: "(bomPos < length UTF8_BOM \<and> ch = UTF8_BOM ! bomPos) = False" by blast
    have "skipBom bomPos (ch # rest) = ch # rest"
      by (simp only: skipBom.simps neg if_False)
    moreover have "parseLoop (ch # rest) lineBuffer lineNum bomPos lastCR tooLong
        = parseLoop (ch # rest) lineBuffer lineNum (length UTF8_BOM) lastCR tooLong"
      by (simp only: parseLoop.simps neg less_irrefl simp_thms if_False)
    ultimately show ?thesis by (simp only:)
  qed
qed

lemma skipBom_done: "skipBom (length UTF8_BOM) body = body"
  by (cases body) simp_all

lemma skipBom_mark: "skipBom 0 (UTF8_BOM @ body) = body"
proof -
  have "skipBom 0 (UTF8_BOM @ body) = skipBom (length UTF8_BOM) body"
    by (simp add: UTF8_BOM_def)
  then show ?thesis by (simp only: skipBom_done)
qed

lemma skipBom_no_mark: "\<not> startsWith body [239] \<Longrightarrow> skipBom 0 body = body"
  by (cases body) (simp_all add: startsWith_def UTF8_BOM_def)

text \<open>
  C6, as the code has it.  For every text that does not begin with the code unit 0xEF,
  the text with the byte order mark 0xEF 0xBB 0xBF in front is parsed into the same calls
  of the handler, with the same values, line numbers and metadata, as the text itself.
\<close>

theorem bom_prefix_same_events:
  "\<not> startsWith robotsBody [239] \<Longrightarrow>
   parseRobotsTxt (UTF8_BOM @ robotsBody) = parseRobotsTxt robotsBody"
proof -
  assume no_mark: "\<not> startsWith robotsBody [239]"
  have "parseLoop (UTF8_BOM @ robotsBody) [] 0 0 False False
      = parseLoop robotsBody [] 0 (length UTF8_BOM) False False"
    by (subst parseLoop_skipBom) (simp only: skipBom_mark)
  moreover have "parseLoop robotsBody [] 0 0 False False
      = parseLoop robotsBody [] 0 (length UTF8_BOM) False False"
    by (subst parseLoop_skipBom) (simp only: skipBom_no_mark[OF no_mark])
  ultimately show ?thesis by (simp add: parseRobotsTxt_def)
qed

theorem bom_prefix_same_events_witness:
  "\<not> startsWith (js ''Allow: /'') [239] \<and>
   parseRobotsTxt (UTF8_BOM @ js ''Allow: /'') = parseRobotsTxt (js ''Allow: /'')"
proof -
  have h: "\<not> startsWith (js ''Allow: /'') [239]" by (simp add: startsWith_def js_def)
  show ?thesis using h bom_prefix_same_events[OF h] by simp
qed

text \<open>
  A text that begins with 0xEF loses that character as the start of a mark; behind a
  mark it is kept, and the line has another key.
\<close>

theorem bom_prefix_counterexample:
  "parseRobotsTxt ([239] @ js ''Allow: /'')
     = [HandleRobotsStart, HandleAllow 1 (js ''/''),
        ReportLineMetadata 1 (createLineMetadata\<lparr>hasDirective := True\<rparr>), HandleRobotsEnd] \<and>
   parseRobotsTxt (UTF8_BOM @ [239] @ js ''Allow: /'')
     = [HandleRobotsStart, HandleUnknownAction 1 (239 # js ''Allow'') (js ''/''),
        ReportLineMetadata 1 (createLineMetadata\<lparr>hasDirective := True\<rparr>), HandleRobotsEnd]"
  by (simp add: eval_defs)

subsection \<open>Lines and their length\<close>

lemma budget_positive: "0 < K_MAX_LINE_LEN - 1"
  by (simp add: K_MAX_LINE_LEN_def)

lemma parseLoop_lines:
  "(afterCR \<longrightarrow> cur = []) \<Longrightarrow>
   parseLoop body (take (K_MAX_LINE_LEN - 1) cur) lineNum (length UTF8_BOM) afterCR
     (K_MAX_LINE_LEN - 1 < length cur)
   = emitLines (K_MAX_LINE_LEN - 1) lineNum (logicalLines body cur afterCR) @ [HandleRobotsEnd]"
proof (induction body arbitrary: cur lineNum afterCR)
  case Nil
  show ?case by simp
next
  case (Cons ch rest)
  let ?B = "K_MAX_LINE_LEN - 1"
  have empty: "length (take ?B cur) = 0 \<longleftrightarrow> cur = []"
    using budget_positive by (cases cur) auto
  show ?case
  proof (cases "ch = 10 \<or> ch = 13")
    case lineEnd: True
    show ?thesis
    proof (cases "afterCR \<and> ch = 10")
      case True
      then have cur: "cur = []" using Cons.prems by simp
      have "parseLoop rest (take ?B []) lineNum (length UTF8_BOM) False (?B < length ([]::jsstring))
          = emitLines ?B lineNum (logicalLines rest [] False) @ [HandleRobotsEnd]"
        by (rule Cons.IH) simp
      then show ?thesis using True cur by simp
    next
      case False
      have "parseLoop rest (take ?B []) (lineNum + 1) (length UTF8_BOM) (ch = 13)
              (?B < length ([]::jsstring))
          = emitLines ?B (lineNum + 1) (logicalLines rest [] (ch = 13)) @ [HandleRobotsEnd]"
        by (rule Cons.IH) simp
      then show ?thesis using False lineEnd empty by auto
    qed
  next
    case ordinary: False
    show ?thesis
    proof (cases "length cur < ?B")
      case True
      have "parseLoop rest (take ?B (cur @ [ch])) lineNum (length UTF8_BOM) False
              (?B < length (cur @ [ch]))
          = emitLines ?B lineNum (logicalLines rest (cur @ [ch]) False) @ [HandleRobotsEnd]"
        by (rule Cons.IH) simp
      then show ?thesis using True ordinary by simp
    next
      case False
      have "parseLoop rest (take ?B (cur @ [ch])) lineNum (length UTF8_BOM) False
              (?B < length (cur @ [ch]))
          = emitLines ?B lineNum (logicalLines rest (cur @ [ch]) False) @ [HandleRobotsEnd]"
        by (rule Cons.IH) simp
      then show ?thesis using False ordinary by (simp add: less_Suc_eq_le)
    qed
  qed
qed

lemma parseRobotsTxt_lines:
  "parseRobotsTxt robotsBody =
   HandleRobotsStart #
   emitLines (K_MAX_LINE_LEN - 1) 0 (logicalLines (skipBom 0 robotsBody) [] False) @
   [HandleRobotsEnd]"
proof -
  have "parseLoop (skipBom 0 robotsBody) (take (K_MAX_LINE_LEN - 1) []) 0 (length UTF8_BOM) False
          (K_MAX_LINE_LEN - 1 < length ([]::jsstring))
      = emitLines (K_MAX_LINE_LEN - 1) 0 (logicalLines (skipBom 0 robotsBody) [] False)
        @ [HandleRobotsEnd]"
    by (rule parseLoop_lines) simp
  then show ?thesis
    unfolding parseRobotsTxt_def by (subst parseLoop_skipBom) simp
qed

lemma parseAndEmitLine_report:
  "\<exists>calls metadata.
     parseAndEmitLine lineNum line lineTooLong = calls @ [ReportLineMetadata lineNum metadata] \<and>
     isLineTooLong metadata = lineTooLong \<and> length calls \<le> 1"
proof -
  obtain key val metadata0 where kv: "getKeyAndValueFrom line = (key, val, metadata0)"
    by (cases "getKeyAndValueFrom line") auto
  obtain keyType typo unknownText where pk: "parseKey key = (keyType, typo, unknownText)"
    by (cases "parseKey key") auto
  show ?thesis
  proof (cases "hasDirective metadata0")
    case False
    then have "parseAndEmitLine lineNum line lineTooLong
        = [] @ [ReportLineMetadata lineNum (metadata0\<lparr>isLineTooLong := lineTooLong\<rparr>)]"
      by (simp add: parseAndEmitLine_def kv)
    then show ?thesis by force
  next
    case True
    then have "\<exists>call. parseAndEmitLine lineNum line lineTooLong
        = [call] @ [ReportLineMetadata lineNum
                     (metadata0\<lparr>isLineTooLong := lineTooLong, isAcceptableTypo := typo\<rparr>)]"
      by (simp add: parseAndEmitLine_def kv pk)
    then show ?thesis by force
  qed
qed

text \<open>
  C7, as the code has it.  The content of each logical line is cut at
  \<open>K_MAX_LINE_LEN - 1\<close> = 16663 code units: the calls of a parse are those for the logical
  lines of the text behind the skipped mark, in order and numbered from 1, each line
  handed on with exactly its first 16663 code units and marked too long exactly when it
  has more than 16663; and the call for a line ends with the report of its metadata,
  whose \<open>isLineTooLong\<close> is that mark.
\<close>

theorem line_truncated_at_budget:
  "K_MAX_LINE_LEN - 1 = 16663 \<and>
   parseRobotsTxt robotsBody =
     HandleRobotsStart #
     emitLines 16663 0 (logicalLines (skipBom 0 robotsBody) [] False) @ [HandleRobotsEnd] \<and>
   (\<exists>calls metadata.
      parseAndEmitLine lineNum line lineTooLong = calls @ [ReportLineMetadata lineNum metadata] \<and>
      isLineTooLong metadata = lineTooLong \<and> length calls \<le> 1)"
proof -
  have k: "K_MAX_LINE_LEN - 1 = 16663" by (simp add: K_MAX_LINE_LEN_def)
  show ?thesis
    using parseRobotsTxt_lines[of robotsBody] parseAndEmitLine_report[of lineNum line lineTooLong]
    by (simp only: k simp_thms)
qed

lemma logicalLines_plain:
  "ch \<noteq> 10 \<Longrightarrow> ch \<noteq> 13 \<Longrightarrow> logicalLines (replicate n ch) cur False = [cur @ replicate n ch]"
proof (induction n arbitrary: cur)
  case 0
  show ?case by simp
next
  case (Suc n)
  then show ?case by (simp add: replicate_app_Cons_same)
qed

lemma indexOf_replicate: "ch \<noteq> c \<Longrightarrow> indexOf c (replicate n ch) = None"
  by (induction n) simp_all

lemma splitBlanks_plain: "\<not> isBlank ch \<Longrightarrow> splitBlanks cur (replicate n ch) = [cur @ replicate n ch]"
proof (induction n arbitrary: cur)
  case 0
  show ?case by simp
next
  case (Suc n)
  then show ?case by (simp add: replicate_app_Cons_same)
qed

lemma dropWhile_replicate: "\<not> P ch \<Longrightarrow> dropWhile P (replicate n ch) = replicate n ch"
  by (cases n) simp_all

lemma trim_replicate: "\<not> isWhiteSpace ch \<Longrightarrow> trim (replicate n ch) = replicate n ch"
  by (simp add: trim_def dropWhile_replicate)

lemma parseAndEmitLine_letters:
  "0 < n \<Longrightarrow>
   parseAndEmitLine lineNum (replicate n 97) lineTooLong =
     [ReportLineMetadata lineNum (createLineMetadata\<lparr>isLineTooLong := lineTooLong\<rparr>)]"
proof -
  assume n: "0 < n"
  have "getKeyAndValueFrom (replicate n 97) = ([], [], createLineMetadata)"
    using n
    by (simp add: getKeyAndValueFrom_def indexOf_replicate trim_replicate isWhiteSpace_def
        splitBlanks_plain isBlank_def Let_def)
  then show ?thesis by (simp add: parseAndEmitLine_def createLineMetadata_def)
qed

text \<open>
  A line of 16664 letters \<open>a\<close> is within 2083 * 8 = 16664; the parser hands on its first
  16663 characters and marks it as too long.
\<close>

theorem line_budget_counterexample:
  "parseRobotsTxt (replicate 16664 97) =
     HandleRobotsStart # parseAndEmitLine 1 (replicate 16663 97) True @ [HandleRobotsEnd] \<and>
   parseRobotsTxt (replicate 16664 97) =
     [HandleRobotsStart,
      ReportLineMetadata 1 (createLineMetadata\<lparr>isLineTooLong := True\<rparr>),
      HandleRobotsEnd]"
proof -
  have k: "K_MAX_LINE_LEN - 1 = 16663" by (simp add: K_MAX_LINE_LEN_def)
  have "replicate 16664 97 = (97::nat) # replicate 16663 97"
    by (simp add: replicate_Suc[symmetric] del: replicate_Suc)
  then have "skipBom 0 (replicate 16664 97) = replicate 16664 97"
    by (simp add: UTF8_BOM_def)
  moreover have "logicalLines (replicate 16664 97) [] False = [replicate 16664 97]"
    using logicalLines_plain[of 97 16664 "[]"] by simp
  moreover have "parseRobotsTxt (replicate 16664 97) =
     HandleRobotsStart #
     emitLines 16663 0 (logicalLines (skipBom 0 (replicate 16664 97)) [] False) @ [HandleRobotsEnd]"
    using parseRobotsTxt_lines[of "replicate 16664 97"] by (simp only: k)
  ultimately have run: "parseRobotsTxt (replicate 16664 97) =
     HandleRobotsStart # parseAndEmitLine 1 (replicate 16663 97) True @ [HandleRobotsEnd]"
    by simp
  show ?thesis using run parseAndEmitLine_letters[of 16663 1 True] by simp
qed

subsection \<open>Escaping of values\<close>

text \<open>
  C8, as the code has it.  A line with a directive has its value escaped by
  \<open>maybeEscapePattern\<close> exactly when its key is not classified as User-Agent or Sitemap:
  the values of Allow and Disallow lines and of lines with an unknown key are escaped,
  those of User-Agent and Sitemap lines are handed on as they are.
\<close>

theorem escape_by_key_type:
  "getKeyAndValueFrom line = (key, val, metadata) \<Longrightarrow> hasDirective metadata \<Longrightarrow>
   \<exists>reported.
     parseAndEmitLine lineNum line lineTooLong =
       [case fst (parseKey key) of
          USER_AGENT \<Rightarrow> HandleUserAgent lineNum val
        | SITEMAP \<Rightarrow> HandleSitemap lineNum val
        | ALLOW \<Rightarrow> HandleAllow lineNum (fst (maybeEscapePattern val))
        | DISALLOW \<Rightarrow> HandleDisallow lineNum (fst (maybeEscapePattern val))
        | UNKNOWN \<Rightarrow> HandleUnknownAction lineNum key (fst (maybeEscapePattern val)),
        ReportLineMetadata lineNum reported]"
proof -
  assume kv: "getKeyAndValueFrom line = (key, val, metadata)" and dir: "hasDirective metadata"
  obtain keyType typo unknownText where pk: "parseKey key = (keyType, typo, unknownText)"
    by (cases "parseKey key") auto
  have unknown: "keyType = UNKNOWN \<Longrightarrow> unknownText = Some key"
    using pk by (auto simp: parseKey_def split: if_splits)
  show ?thesis
    using dir unknown by (cases keyType) (simp_all add: parseAndEmitLine_def kv pk)
qed

theorem escape_by_key_type_witness:
  "getKeyAndValueFrom (js ''Sitemap: %aa'')
     = (js ''Sitemap'', js ''%aa'', createLineMetadata\<lparr>hasDirective := True\<rparr>) \<and>
   hasDirective (createLineMetadata\<lparr>hasDirective := True\<rparr>) \<and>
   (\<exists>reported.
      parseAndEmitLine 1 (js ''Sitemap: %aa'') False =
        [HandleSitemap 1 (js ''%aa''), ReportLineMetadata 1 reported])"
proof -
  have kv: "getKeyAndValueFrom (js ''Sitemap: %aa'')
     = (js ''Sitemap'', js ''%aa'', createLineMetadata\<lparr>hasDirective := True\<rparr>)"
    by (simp add: eval_defs)
  have dir: "hasDirective (createLineMetadata\<lparr>hasDirective := True\<rparr>)" by simp
  have key: "fst (parseKey (js ''Sitemap'')) = SITEMAP" by (simp add: eval_defs)
  show ?thesis
    using kv dir escape_by_key_type[OF kv dir, of 1 False] by (simp add: key)
qed

text \<open>
  The key \<open>foo\<close> is neither Allow nor Disallow, and the value \<open>%aa\<close> of its line reaches
  the handler as \<open>%AA\<close>.
\<close>

theorem escape_unknown_counterexample:
  "fst (parseKey (js ''foo'')) = UNKNOWN \<and>
   maybeEscapePattern (js ''%aa'') = (js ''%AA'', True) \<and>
   parseRobotsTxt (js ''foo: %aa'')
     = [HandleRobotsStart, HandleUnknownAction 1 (js ''foo'') (js ''%AA''),
        ReportLineMetadata 1 (createLineMetadata\<lparr>hasDirective := True\<rparr>), HandleRobotsEnd]"
  by (simp add: eval_defs)

end
